theory Spec2Isabelle
  imports Main "HOL-Library.AList" "HOL-Library.Sublist"
begin

unbundle bit_operations_syntax

text \<open>
  A model of \<open>make_comparison_matrices.py\<close>: the annotation parser
  (\<open>parse_gff\<close>), the presence table and the loop over the genes
  (\<open>process_gff_folder\<close>), the selection by the leaf order of a tree
  (\<open>reorder_matrix_by_tree\<close>) and the flattening of the input folder
  (\<open>copy_gff_files\<close>). Exceptions are values of the type \<open>error\<close>; a
  function that can raise returns \<open>error + 'a\<close>. The file system is a map
  from POSIX paths to the text of the readable files; the directory listing,
  the creation times, the walk of the input folder and the Newick reader of
  \<open>Bio.Phylo\<close> are parameters. The tables that pandas holds are records of
  their labels and cells, with the operations of pandas that the program uses.
\<close>


section \<open>Strings and paths\<close>

text \<open>
  A Python \<open>str\<close> is modelled as a \<open>string\<close>; a \<open>char\<close> stands for the
  code point of the same number (code points below 256).
\<close>

definition startswith :: "string \<Rightarrow> string \<Rightarrow> bool" where
  "startswith s p = (take (length p) s = p)"

definition endswith :: "string \<Rightarrow> string \<Rightarrow> bool" where
  "endswith s p = (length p \<le> length s \<and> drop (length s - length p) s = p)"

text \<open>\<open>os.path.basename\<close> (POSIX): everything after the last slash.\<close>

definition basename :: "string \<Rightarrow> string" where
  "basename p = rev (takeWhile (\<lambda>c. c \<noteq> CHR ''/'') (rev p))"

text \<open>\<open>os.path.join\<close> (POSIX) of two components.\<close>

definition path_join :: "string \<Rightarrow> string \<Rightarrow> string" where
  "path_join a b =
     (if startswith b ''/'' then b
      else if a = [] \<or> endswith a ''/'' then a @ b
      else a @ ''/'' @ b)"

text \<open>
  \<open>s.replace(".gff", "")\<close>: every occurrence of the four characters is removed,
  scanning from the left and resuming after each removed occurrence.
\<close>

fun replace_gff :: "string \<Rightarrow> string" where
  "replace_gff [] = []"
| "replace_gff (c # cs) =
     (if startswith (c # cs) ''.gff'' then replace_gff (drop 3 cs)
      else c # replace_gff cs)"

text \<open>Line 37: \<open>genome_name = os.path.basename(file_path).replace(".gff", "")\<close>.\<close>

definition genome_name_of :: "string \<Rightarrow> string" where
  "genome_name_of file_path = replace_gff (basename file_path)"

text \<open>
  \<open>str.isspace\<close> on the code points below 256: tab, line feed, vertical tab, form
  feed, carriage return, the four separators 28 to 31, space, NEL (133) and the
  no-break space (160).
\<close>

definition is_space :: "char \<Rightarrow> bool" where
  "is_space c = (of_char c \<in> {9, 10, 11, 12, 13, 28, 29, 30, 31, 32, 133, 160 :: nat})"

text \<open>\<open>s.strip()\<close>: leading and trailing white space removed.\<close>

definition strip :: "string \<Rightarrow> string" where
  "strip s = rev (dropWhile is_space (rev (dropWhile is_space s)))"

text \<open>\<open>s.strip("'")\<close>: leading and trailing apostrophes removed.\<close>

definition strip_quote :: "string \<Rightarrow> string" where
  "strip_quote s =
     rev (dropWhile (\<lambda>c. c = CHR 0x27) (rev (dropWhile (\<lambda>c. c = CHR 0x27) s)))"

text \<open>\<open>s.split(sep)\<close> for a one-character separator: empty fields are kept.\<close>

fun split_on :: "char \<Rightarrow> string \<Rightarrow> string list" where
  "split_on sep [] = [[]]"
| "split_on sep (c # cs) =
     (if c = sep then [] # split_on sep cs
      else (case split_on sep cs of
              [] \<Rightarrow> [[c]]
            | w # ws \<Rightarrow> (c # w) # ws))"

text \<open>
  Iterating over a text file yields its lines, each with its line feed; a last line
  without a line feed is yielded as it is.
\<close>

fun file_lines :: "string \<Rightarrow> string list" where
  "file_lines [] = []"
| "file_lines (c # cs) =
     (if c = CHR 0x0A then [c] # file_lines cs
      else (case file_lines cs of
              [] \<Rightarrow> [[c]]
            | l # ls \<Rightarrow> (c # l) # ls))"

section \<open>The annotation parser\<close>

text \<open>
  Line 46: \<open>re.search(r"Name=([^;]+)", attributes)\<close>. The search takes the leftmost
  position at which \<open>Name=\<close> is followed by at least one character other than a
  semicolon; group 1 is the longest run of such characters from there.
\<close>

definition name_run :: "string \<Rightarrow> string" where
  "name_run s = takeWhile (\<lambda>c. c \<noteq> CHR '';'') s"

fun re_search_name :: "string \<Rightarrow> string option" where
  "re_search_name [] = None"
| "re_search_name (c # cs) =
     (if startswith (c # cs) ''Name='' \<and> name_run (drop 4 cs) \<noteq> []
      then Some (name_run (drop 4 cs))
      else re_search_name cs)"

text \<open>
  A Python dict keeps its keys in insertion order: storing under an existing key
  keeps the key's position, storing under a new key appends it. This is
  \<open>AList.update\<close> on an association list.
\<close>

type_synonym presence = "(string \<times> int) list"

text \<open>Line 38: \<open>gene_presence = {gene: 0 for gene in target_genes}\<close>.\<close>

definition init_presence :: "string list \<Rightarrow> presence" where
  "init_presence target_genes = foldl (\<lambda>d gene. AList.update gene 0 d) [] target_genes"

text \<open>Lines 42 to 50: the body of the loop over the lines of the file.\<close>

definition parse_line :: "string list \<Rightarrow> presence \<Rightarrow> string \<Rightarrow> presence" where
  "parse_line target_genes gene_presence line =
     (if \<not> startswith line ''#'' then
        (let columns = split_on CHR 0x09 (strip line) in
         if length columns > 8 then
           (case re_search_name (columns ! 8) of
              Some gene_name \<Rightarrow>
                if gene_name \<in> set target_genes
                then AList.update gene_name 1 gene_presence
                else gene_presence
            | None \<Rightarrow> gene_presence)
         else gene_presence)
      else gene_presence)"

datatype error = OSError | KeyError | ValueError | TypeError | AttributeError | NewickError

text \<open>
  The readable text files: a map from a path to the text of the file. A path
  outside the map cannot be opened (\<open>open\<close> raises \<open>OSError\<close>).
\<close>

type_synonym files = "string \<rightharpoonup> string"

definition parse_gff :: "files \<Rightarrow> string \<Rightarrow> string list \<Rightarrow> error + (string \<times> presence)" where
  "parse_gff fs file_path target_genes =
     (let genome_name = genome_name_of file_path;
          gene_presence = init_presence target_genes
      in case fs file_path of
           None \<Rightarrow> Inl OSError
         | Some text \<Rightarrow>
             Inr (genome_name, foldl (parse_line target_genes) gene_presence (file_lines text)))"

section \<open>Data frames\<close>

text \<open>
  A label or a cell of a pandas \<open>DataFrame\<close>: a string, an integer, or the
  \<open>NaN\<close> that pandas stores where a record has no value for a column.
\<close>

datatype pyval = PStr string | PInt int | PNaN

text \<open>A data frame: its row labels, its column labels and its cells, row by row.\<close>

record dataframe =
  df_index :: "pyval list"
  df_columns :: "pyval list"
  df_values :: "pyval list list"

text \<open>
  The shape every pandas frame has: one row of cells per row label, one cell per
  column label in every row.
\<close>

definition rectangular :: "dataframe \<Rightarrow> bool" where
  "rectangular df =
     (length (df_values df) = length (df_index df) \<and>
      list_all (\<lambda>row. length row = length (df_columns df)) (df_values df))"

text \<open>Line 98: the dict literal \<open>{"Genome": genome_name, **gene_presence}\<close>.\<close>

definition result_row :: "string \<Rightarrow> presence \<Rightarrow> (string \<times> pyval) list" where
  "result_row genome_name gene_presence =
     foldl (\<lambda>d (k, v). AList.update k (PInt v) d) [(''Genome'', PStr genome_name)] gene_presence"

text \<open>The keys of a list of records in the order of their first appearance.\<close>

definition unique_keys :: "string list \<Rightarrow> string list" where
  "unique_keys ks = rev (remdups (rev ks))"

text \<open>
  Lines 100 and 101: \<open>pd.DataFrame(results)\<close> makes one column per key and one row
  per record; \<open>set_index("Genome")\<close> moves the column of that name to the row
  labels and raises \<open>KeyError\<close> when there is no such column (as for an empty
  list of records).
\<close>

definition record_cell :: "(string \<times> pyval) list \<Rightarrow> string \<Rightarrow> pyval" where
  "record_cell r k = (case map_of r k of Some v \<Rightarrow> v | None \<Rightarrow> PNaN)"

definition frame_of_results :: "(string \<times> pyval) list list \<Rightarrow> error + dataframe" where
  "frame_of_results results =
     (let keys = unique_keys (concat (map (map fst) results));
          others = filter (\<lambda>k. k \<noteq> ''Genome'') keys
      in if ''Genome'' \<notin> set keys then Inl KeyError
         else Inr \<lparr>df_index = map (\<lambda>r. record_cell r ''Genome'') results,
                   df_columns = map PStr others,
                   df_values = map (\<lambda>r. map (record_cell r) others) results\<rparr>)"

text \<open>The positions at which a label occurs in a list of labels.\<close>

definition positions :: "pyval list \<Rightarrow> pyval \<Rightarrow> nat list" where
  "positions labels l = filter (\<lambda>i. labels ! i = l) [0..<length labels]"

text \<open>
  \<open>df[gene].values\<close>: the cells of the column with that label; \<open>KeyError\<close> when
  there is none. With several columns of that label the selection is a frame, the
  broadcast of line 111 has three dimensions and \<open>pd.DataFrame\<close> refuses it.
\<close>

definition getitem_column :: "dataframe \<Rightarrow> pyval \<Rightarrow> error + pyval list" where
  "getitem_column df c =
     (case positions (df_columns df) c of
        [] \<Rightarrow> Inl KeyError
      | [j] \<Rightarrow> Inr (map (\<lambda>row. row ! j) (df_values df))
      | _ \<Rightarrow> Inl ValueError)"

fun the_int :: "pyval \<Rightarrow> int option" where
  "the_int (PInt n) = Some n"
| "the_int _ = None"

text \<open>
  Line 111: \<open>(v[:, None] & v[None, :]).astype(int)\<close>, the bitwise conjunction of every
  pair of cells of the column; a column that is not of integers has no \<open>&\<close>.
\<close>

definition outer_and :: "pyval list \<Rightarrow> error + pyval list list" where
  "outer_and col =
     (case those (map the_int col) of
        None \<Rightarrow> Inl TypeError
      | Some v \<Rightarrow> Inr (map (\<lambda>a. map (\<lambda>b. PInt (a AND b)) v) v))"

text \<open>Lines 111 and 112: the co-presence matrix of one gene, labelled by the index.\<close>

definition gene_df_of :: "dataframe \<Rightarrow> string \<Rightarrow> error + dataframe" where
  "gene_df_of df gene =
     (case getitem_column df (PStr gene) of
        Inl e \<Rightarrow> Inl e
      | Inr col \<Rightarrow>
          (case outer_and col of
             Inl e \<Rightarrow> Inl e
           | Inr gene_matrix \<Rightarrow>
               Inr \<lparr>df_index = df_index df, df_columns = df_index df,
                     df_values = gene_matrix\<rparr>))"

section \<open>The tree-order reconciler\<close>

text \<open>
  A tree as \<open>Bio.Phylo\<close> holds it: a clade has an optional name and its child
  clades. \<open>get_terminals\<close> lists the clades without children in preorder.
\<close>

datatype clade = Clade (clade_name: "string option") (clades: "clade list")

fun get_terminals :: "clade \<Rightarrow> clade list" where
  "get_terminals (Clade n cs) =
     (if cs = [] then [Clade n cs] else concat (map get_terminals cs))"

text \<open>
  Line 68: \<open>[leaf.name.strip("'") for leaf in tree.get_terminals()]\<close>; a leaf
  without a name has no \<open>strip\<close>.
\<close>

definition tip_labels_ordered :: "clade \<Rightarrow> error + string list" where
  "tip_labels_ordered tree =
     (case those (map clade_name (get_terminals tree)) of
        None \<Rightarrow> Inl AttributeError
      | Some names \<Rightarrow> Inr (map strip_quote names))"

text \<open>Line 71: \<open>[g for g in tip_labels_ordered if g in df.index]\<close>.\<close>

definition valid_genomes :: "dataframe \<Rightarrow> string list \<Rightarrow> string list" where
  "valid_genomes df tips = filter (\<lambda>g. PStr g \<in> set (df_index df)) tips"

text \<open>
  The positions a list of keys selects on one axis (\<open>df.loc\<close> with a list): for
  every key in turn, all the positions that carry it, so that a key given twice
  selects its rows twice and a label carried by two rows selects both;
  \<open>KeyError\<close> when a key is on no position.
\<close>

definition get_indexer :: "pyval list \<Rightarrow> pyval list \<Rightarrow> error + nat list" where
  "get_indexer labels keys =
     (if list_all (\<lambda>k. k \<in> set labels) keys
      then Inr (concat (map (positions labels) keys))
      else Inl KeyError)"

text \<open>\<open>df.loc[rows, cols]\<close> with two lists of labels.\<close>

definition loc :: "dataframe \<Rightarrow> pyval list \<Rightarrow> pyval list \<Rightarrow> error + dataframe" where
  "loc df rows cols =
     (case get_indexer (df_index df) rows of
        Inl e \<Rightarrow> Inl e
      | Inr is \<Rightarrow>
          (case get_indexer (df_columns df) cols of
             Inl e \<Rightarrow> Inl e
           | Inr js \<Rightarrow>
               Inr \<lparr>df_index = map (\<lambda>i. df_index df ! i) is,
                     df_columns = map (\<lambda>j. df_columns df ! j) js,
                     df_values = map (\<lambda>i. map (\<lambda>j. df_values df ! i ! j) js) is\<rparr>))"

text \<open>Lines 71 to 73: the selection by the leaf names of the tree.\<close>

definition reorder_by_tips :: "dataframe \<Rightarrow> string list \<Rightarrow> error + dataframe" where
  "reorder_by_tips df tips =
     (let valid = map PStr (valid_genomes df tips) in loc df valid valid)"

text \<open>
  \<open>reorder_matrix_by_tree\<close>. The Newick reader \<open>Phylo.read\<close> is a parameter: it
  gives the tree of a text or an error.
\<close>

definition reorder_matrix_by_tree ::
  "(string \<Rightarrow> error + clade) \<Rightarrow> files \<Rightarrow> dataframe \<Rightarrow> string \<Rightarrow> error + dataframe" where
  "reorder_matrix_by_tree phylo_read fs df tree_file_path =
     (case fs tree_file_path of
        None \<Rightarrow> Inl OSError
      | Some newick_text \<Rightarrow>
          (case phylo_read newick_text of
             Inl e \<Rightarrow> Inl e
           | Inr tree \<Rightarrow>
               (case tip_labels_ordered tree of
                  Inl e \<Rightarrow> Inl e
                | Inr tips \<Rightarrow> reorder_by_tips df tips)))"

section \<open>The presence table and the batch\<close>

text \<open>
  Lines 90 to 92: the names of the directory that end in \<open>.gff\<close>, sorted by the
  creation time of the file (\<open>sorted\<close> is stable).
\<close>

definition gff_file_list :: "string list \<Rightarrow> (string \<Rightarrow> int) \<Rightarrow> string \<Rightarrow> string list" where
  "gff_file_list names getctime folder_path =
     sort_key (\<lambda>x. getctime (path_join folder_path x))
       (filter (\<lambda>f. endswith f ''.gff'') names)"

text \<open>Lines 95 to 98: one record per file; an unreadable file ends the loop.\<close>

fun parse_files ::
  "files \<Rightarrow> string \<Rightarrow> string list \<Rightarrow> string list \<Rightarrow> error + (string \<times> pyval) list list" where
  "parse_files fs folder_path target_genes [] = Inr []"
| "parse_files fs folder_path target_genes (filename # rest) =
     (case parse_gff fs (path_join folder_path filename) target_genes of
        Inl e \<Rightarrow> Inl e
      | Inr (genome_name, gene_presence) \<Rightarrow>
          (case parse_files fs folder_path target_genes rest of
             Inl e \<Rightarrow> Inl e
           | Inr results \<Rightarrow> Inr (result_row genome_name gene_presence # results)))"

text \<open>
  Lines 90 to 101: the presence table of a directory. \<open>listdir\<close> gives the names
  in a directory (none for a directory that cannot be listed), \<open>getctime\<close> the
  creation time of a path.
\<close>

definition presence_table ::
  "(string \<rightharpoonup> string list) \<Rightarrow> (string \<Rightarrow> int) \<Rightarrow> files \<Rightarrow> string \<Rightarrow> string list
     \<Rightarrow> error + dataframe" where
  "presence_table listdir getctime fs folder_path target_genes =
     (case listdir folder_path of
        None \<Rightarrow> Inl OSError
      | Some names \<Rightarrow>
          (case parse_files fs folder_path target_genes
                  (gff_file_list names getctime folder_path) of
             Inl e \<Rightarrow> Inl e
           | Inr results \<Rightarrow> frame_of_results results))"

text \<open>
  A written table: its path and the frame that \<open>to_csv\<close> stored there. The tables
  are kept in the order in which they were written.
\<close>

type_synonym written_table = "string \<times> dataframe"

text \<open>Lines 111 to 120: the body of the loop over the genes.\<close>

definition gene_step ::
  "(string \<Rightarrow> error + clade) \<Rightarrow> files \<Rightarrow> dataframe \<Rightarrow> string \<Rightarrow> string \<Rightarrow> string
     \<Rightarrow> error + written_table" where
  "gene_step phylo_read fs df output_folder tree_file gene =
     (case gene_df_of df gene of
        Inl e \<Rightarrow> Inl e
      | Inr gene_df \<Rightarrow>
          (case reorder_matrix_by_tree phylo_read fs gene_df tree_file of
             Inl e \<Rightarrow> Inl e
           | Inr gene_df_ordered \<Rightarrow>
               Inr (path_join output_folder (gene @ ''_comparison_matrix_ordered_by_tree.csv''),
                    gene_df_ordered)))"

text \<open>
  Lines 109 to 121: the loop. An exception of one step leaves the loop and the
  function; the tables written so far stay.
\<close>

fun gene_loop ::
  "(string \<Rightarrow> error + clade) \<Rightarrow> files \<Rightarrow> dataframe \<Rightarrow> string \<Rightarrow> string \<Rightarrow> string list
     \<Rightarrow> written_table list \<Rightarrow> written_table list \<times> error option" where
  "gene_loop phylo_read fs df output_folder tree_file [] written = (written, None)"
| "gene_loop phylo_read fs df output_folder tree_file (gene # genes) written =
     (case gene_step phylo_read fs df output_folder tree_file gene of
        Inl e \<Rightarrow> (written, Some e)
      | Inr out \<Rightarrow>
          gene_loop phylo_read fs df output_folder tree_file genes (written @ [out]))"

text \<open>
  \<open>process_gff_folder\<close>: the tables it has written, and the exception it ended
  with, if any. The output folder can be created and written to, and the
  written tables are none of the files that the function reads.
\<close>

definition process_gff_folder ::
  "(string \<rightharpoonup> string list) \<Rightarrow> (string \<Rightarrow> int) \<Rightarrow> (string \<Rightarrow> error + clade) \<Rightarrow> files
     \<Rightarrow> string \<Rightarrow> string list \<Rightarrow> string \<Rightarrow> string \<Rightarrow> string
     \<Rightarrow> written_table list \<times> error option" where
  "process_gff_folder listdir getctime phylo_read fs folder_path target_genes
       output_folder tree_file label =
     (case presence_table listdir getctime fs folder_path target_genes of
        Inl e \<Rightarrow> ([], Some e)
      | Inr df \<Rightarrow>
          gene_loop phylo_read fs df output_folder tree_file target_genes
            [(path_join output_folder (label @ ''_gene_presence_matrix.csv''), df)])"

section \<open>Flattening the input folder\<close>





section \<open>Predicates and examples for the properties\<close>

text \<open>Every cell of the frame is an integer, as in a table of presence bits.\<close>

definition int_cells :: "dataframe \<Rightarrow> bool" where
  "int_cells df = list_all (list_all (\<lambda>v. the_int v \<noteq> None)) (df_values df)"

text \<open>The presence table with rows A, B, C and the bits 1, 0, 1 of one gene.\<close>

definition table_example :: dataframe where
  "table_example =
     \<lparr>df_index = [PStr ''A'', PStr ''B'', PStr ''C''], df_columns = [PStr ''g''],
      df_values = [[PInt 1], [PInt 0], [PInt 1]]\<rparr>"


text \<open>The frame without rows and columns.\<close>

definition empty_frame :: dataframe where
  "empty_frame = \<lparr>df_index = [], df_columns = [], df_values = []\<rparr>"

text \<open>The first position of a label in a list of labels.\<close>

definition label_position :: "pyval list \<Rightarrow> pyval \<Rightarrow> nat" where
  "label_position labels l = length (takeWhile (\<lambda>x. x \<noteq> l) labels)"

text \<open>The co-presence matrix of the example table, a tree and its file.\<close>

definition matrix_example :: dataframe where
  "matrix_example =
     \<lparr>df_index = [PStr ''A'', PStr ''B'', PStr ''C''],
      df_columns = [PStr ''A'', PStr ''B'', PStr ''C''],
      df_values = [[PInt 1, PInt 0, PInt 1], [PInt 0, PInt 0, PInt 0],
                   [PInt 1, PInt 0, PInt 1]]\<rparr>"

definition tree_example :: clade where
  "tree_example = Clade None [Clade (Some ''X'') [], Clade (Some [CHR 0x27, CHR ''Y'', CHR 0x27]) []]"

definition reader_example :: "string \<Rightarrow> error + clade" where
  "reader_example text = (if text = ''(X,Y);'' then Inr tree_example else Inl NewickError)"

definition files_example :: files where
  "files_example = [''t.nwk'' \<mapsto> ''(X,Y);'']"

text \<open>The labels that a selection by keys yields: every key as often as it occurs.\<close>

definition blocks :: "(pyval \<Rightarrow> nat) \<Rightarrow> pyval list \<Rightarrow> pyval list" where
  "blocks c keys = concat (map (\<lambda>k. replicate (c k) k) keys)"

text \<open>A matrix of one genome, and the frame with that genome twice on both axes.\<close>

definition single_example :: dataframe where
  "single_example = \<lparr>df_index = [PStr ''A''], df_columns = [PStr ''A''], df_values = [[PInt 1]]\<rparr>"

definition doubled_example :: dataframe where
  "doubled_example =
     \<lparr>df_index = [PStr ''A'', PStr ''A''], df_columns = [PStr ''A'', PStr ''A''],
      df_values = [[PInt 1, PInt 1], [PInt 1, PInt 1]]\<rparr>"





text \<open>
  An annotation record of nine fields with the given attributes, and a working
  directory in which two files have the GenomeID \<open>strainA\<close>.
\<close>

definition TAB :: char where
  "TAB = CHR 0x09"

definition LF :: char where
  "LF = CHR 0x0A"

definition record_with :: "string \<Rightarrow> string" where
  "record_with attributes =
     ''contig1'' @ [TAB] @ ''src'' @ [TAB] @ ''CDS'' @ [TAB] @ ''1'' @ [TAB] @ ''9'' @ [TAB] @
     ''.'' @ [TAB] @ ''+'' @ [TAB] @ ''0'' @ [TAB] @ attributes"



definition getctime_example :: "string \<Rightarrow> int" where
  "getctime_example p = (if p = ''gff/strainA.gff'' then 1 else 2)"


text \<open>A working directory of two genomes and a tree file that is not a tree.\<close>

definition batch_files :: files where
  "batch_files =
     [''gff/strainA.gff'' \<mapsto> record_with ''ID=g1;Name=mecA'' @ [LF],
      ''gff/strainB.gff'' \<mapsto> record_with ''ID=g7;Name=tetA'' @ [LF],
      ''tree.txt'' \<mapsto> ''(strainA'']"

definition batch_listdir :: "string \<rightharpoonup> string list" where
  "batch_listdir = [''gff'' \<mapsto> [''strainA.gff'', ''strainB.gff'']]"

definition batch_table :: dataframe where
  "batch_table =
     \<lparr>df_index = [PStr ''strainA'', PStr ''strainB''],
      df_columns = [PStr ''mecA'', PStr ''tetA''],
      df_values = [[PInt 1, PInt 0], [PInt 0, PInt 1]]\<rparr>"

definition no_tree :: "string \<Rightarrow> error + clade" where
  "no_tree t = Inl NewickError"

text \<open>
  The value of the \<open>Name\<close> attribute in the words of the specification: the
  text between the first occurrence of \<open>Name=\<close> and the next semicolon or the
  end of the field.
\<close>

fun spec_name_value :: "string \<Rightarrow> string option" where
  "spec_name_value [] = None"
| "spec_name_value (c # cs) =
     (if startswith (c # cs) ''Name='' then Some (name_run (drop 4 cs))
      else spec_name_value cs)"

text \<open>The bit of a gene after one line, starting from the table of zeros.\<close>

definition presence_bit :: "string list \<Rightarrow> string \<Rightarrow> string \<Rightarrow> int option" where
  "presence_bit target_genes line gene =
     map_of (parse_line target_genes (init_presence target_genes) line) gene"

text \<open>
  \<open>v\<close> is the value of the first \<open>Name=\<close> of the field that has a value: it
  is not empty, has no semicolon, ends at a semicolon or at the end of the
  field, and every earlier \<open>Name=\<close> is followed by a semicolon or by nothing.
\<close>

definition first_name_value :: "string \<Rightarrow> string \<Rightarrow> bool" where
  "first_name_value attributes v \<longleftrightarrow>
     (\<exists>pre rest. attributes = pre @ ''Name='' @ v @ rest \<and> v \<noteq> [] \<and> CHR '';'' \<notin> set v \<and>
        (rest = [] \<or> hd rest = CHR '';'') \<and>
        (\<forall>p q. attributes = p @ ''Name='' @ q \<and> length p < length pre \<longrightarrow>
           q = [] \<or> hd q = CHR '';''))"

section \<open>Properties\<close>

subsection \<open>The GenomeID of a file path\<close>

text \<open>
  C7: the GenomeID is the base name of the path with its trailing extension
  removed. The parser removes every occurrence of \<open>.gff\<close> instead: for the file
  \<open>strainA.gff.gff\<close> it returns \<open>strainA\<close>, where the claim gives
  \<open>strainA.gff\<close>, and that is also the GenomeID of \<open>strainA.gff\<close>.
\<close>

theorem genome_name_of_inner_extension:
  "genome_name_of ''gff/strainA.gff.gff'' = ''strainA'' \<and>
   genome_name_of ''gff/strainA.gff'' = ''strainA''"
  by (simp add: genome_name_of_def basename_def startswith_def)

subsection \<open>The co-presence matrix of a gene\<close>

lemma filter_eq_upt: "k < n \<Longrightarrow> filter (\<lambda>i. i = k) [0..<n] = [k]"
  by (induction n) (auto simp: less_Suc_eq filter_empty_conv)

lemma positions_distinct:
  assumes "distinct ls" and "k < length ls"
  shows "positions ls (ls ! k) = [k]"
proof -
  have "filter (\<lambda>i. ls ! i = ls ! k) [0..<length ls] = filter (\<lambda>i. i = k) [0..<length ls]"
    using assms by (intro filter_cong) (auto simp: nth_eq_iff_index_eq)
  also have "\<dots> = [k]"
    using assms(2) by (rule filter_eq_upt)
  finally show ?thesis by (simp add: positions_def)
qed

lemma those_map_Some:
  "(\<And>x. x \<in> set xs \<Longrightarrow> f x \<noteq> None) \<Longrightarrow> those (map f xs) = Some (map (\<lambda>x. the (f x)) xs)"
  by (induction xs) (auto split: option.splits)


lemma the_int_Some: "the_int v \<noteq> None \<Longrightarrow> v = PInt (the (the_int v))"
  by (cases v) auto

lemma gene_df_of_cells:
  assumes rect: "rectangular T" and ints: "int_cells T"
    and dist: "distinct (df_columns T)"
    and k: "k < length (df_columns T)" "df_columns T ! k = PStr gene"
  shows "gene_df_of T gene =
           Inr \<lparr>df_index = df_index T, df_columns = df_index T,
                 df_values = map (\<lambda>r. map (\<lambda>s. PInt (the (the_int (r ! k)) AND the (the_int (s ! k))))
                                     (df_values T)) (df_values T)\<rparr>"
proof -
  have pos: "positions (df_columns T) (PStr gene) = [k]"
    using positions_distinct [OF dist k(1)] k(2) by simp
  have col: "getitem_column T (PStr gene) = Inr (map (\<lambda>row. row ! k) (df_values T))"
    by (simp add: getitem_column_def pos)
  have cell: "the_int (row ! k) \<noteq> None" if "row \<in> set (df_values T)" for row
  proof -
    have "length row = length (df_columns T)" and "list_all (\<lambda>v. the_int v \<noteq> None) row"
      using rect ints that by (auto simp: rectangular_def int_cells_def list_all_iff)
    then show ?thesis using k(1) by (auto simp: list_all_iff)
  qed
  have "those (map the_int (map (\<lambda>row. row ! k) (df_values T))) =
          Some (map (\<lambda>row. the (the_int (row ! k))) (df_values T))"
    using those_map_Some [of "df_values T" "\<lambda>row. the_int (row ! k)"] cell
    by (simp add: comp_def)
  then show ?thesis
    by (simp add: gene_df_of_def col outer_and_def comp_def)
qed

lemma int_cell_at:
  assumes "rectangular T" and "int_cells T" and "k < length (df_columns T)"
    and "i < length (df_index T)"
  shows "df_values T ! i ! k = PInt (the (the_int (df_values T ! i ! k)))"
proof -
  have "df_values T ! i \<in> set (df_values T)"
    using assms(1,4) by (simp add: rectangular_def)
  then have "length (df_values T ! i) = length (df_columns T)"
    and "list_all (\<lambda>v. the_int v \<noteq> None) (df_values T ! i)"
    using assms(1,2) by (auto simp: rectangular_def int_cells_def list_all_iff)
  then have "the_int (df_values T ! i ! k) \<noteq> None"
    using assms(3) by (auto simp: list_all_iff)
  then show ?thesis by (rule the_int_Some)
qed

text \<open>
  C3: for a presence table (rectangular, cells integers, column labels distinct)
  and a gene that labels its column \<open>k\<close>, the co-presence matrix exists, has
  the row labels of the table as its row and its column labels, in the same
  order, and its cell \<open>(i, j)\<close> is the conjunction of the presence cells of
  rows \<open>i\<close> and \<open>j\<close>.
\<close>

theorem co_presence_outer_and:
  assumes "rectangular T" and "int_cells T" and "distinct (df_columns T)"
    and "k < length (df_columns T)" and "df_columns T ! k = PStr gene"
  shows "\<exists>M. gene_df_of T gene = Inr M \<and> rectangular M \<and>
           df_index M = df_index T \<and> df_columns M = df_index T \<and>
           (\<forall>i<length (df_index T). \<forall>j<length (df_index T).
              \<exists>a b. df_values T ! i ! k = PInt a \<and> df_values T ! j ! k = PInt b \<and>
                    df_values M ! i ! j = PInt (a AND b))"
proof -
  let ?n = "length (df_index T)"
  let ?M = "\<lparr>df_index = df_index T, df_columns = df_index T,
             df_values = map (\<lambda>r. map (\<lambda>s. PInt (the (the_int (r ! k)) AND the (the_int (s ! k))))
                                 (df_values T)) (df_values T)\<rparr>"
  have len: "length (df_values T) = ?n"
    using assms(1) by (simp add: rectangular_def)
  have M: "gene_df_of T gene = Inr ?M"
    using assms by (rule gene_df_of_cells)
  have rect: "rectangular ?M"
    by (simp add: rectangular_def len list_all_iff)
  have cells: "\<exists>a b. df_values T ! i ! k = PInt a \<and> df_values T ! j ! k = PInt b \<and>
                 df_values ?M ! i ! j = PInt (a AND b)"
    if "i < ?n" and "j < ?n" for i j
  proof -
    have "df_values T ! i ! k = PInt (the (the_int (df_values T ! i ! k)))"
      using assms(1,2,4) that(1) by (rule int_cell_at)
    moreover have "df_values T ! j ! k = PInt (the (the_int (df_values T ! j ! k)))"
      using assms(1,2,4) that(2) by (rule int_cell_at)
    moreover have "df_values ?M ! i ! j =
        PInt (the (the_int (df_values T ! i ! k)) AND the (the_int (df_values T ! j ! k)))"
      using that len by simp
    ultimately show ?thesis by blast
  qed
  show ?thesis
    using M rect cells by (intro exI [of _ ?M]) simp
qed

theorem co_presence_outer_and_witness:
  "rectangular table_example \<and> int_cells table_example \<and>
   distinct (df_columns table_example) \<and> 0 < length (df_columns table_example) \<and>
   df_columns table_example ! 0 = PStr ''g'' \<and>
   (\<exists>M. gene_df_of table_example ''g'' = Inr M \<and> rectangular M \<and>
      df_index M = df_index table_example \<and> df_columns M = df_index table_example \<and>
      (\<forall>i<length (df_index table_example). \<forall>j<length (df_index table_example).
         \<exists>a b. df_values table_example ! i ! 0 = PInt a \<and>
               df_values table_example ! j ! 0 = PInt b \<and>
               df_values M ! i ! j = PInt (a AND b)))"
proof -
  have h1: "rectangular table_example"
    by (simp add: table_example_def rectangular_def)
  have h2: "int_cells table_example"
    by (simp add: table_example_def int_cells_def)
  have h3: "distinct (df_columns table_example)"
    by (simp add: table_example_def)
  have h4: "0 < length (df_columns table_example)"
    by (simp add: table_example_def)
  have h5: "df_columns table_example ! 0 = PStr ''g''"
    by (simp add: table_example_def)
  show ?thesis
    using h1 h2 h3 h4 h5 co_presence_outer_and [OF h1 h2 h3 h4 h5] by blast
qed

text \<open>
  C4: the co-presence matrix of a presence table is symmetric, and its diagonal
  cell \<open>(i, i)\<close> is the presence cell of row \<open>i\<close> for the gene.
\<close>

theorem co_presence_symmetric_diagonal:
  assumes "rectangular T" and "int_cells T" and "distinct (df_columns T)"
    and "k < length (df_columns T)" and "df_columns T ! k = PStr gene"
  shows "\<exists>M. gene_df_of T gene = Inr M \<and>
           (\<forall>i<length (df_index T). \<forall>j<length (df_index T).
              df_values M ! i ! j = df_values M ! j ! i) \<and>
           (\<forall>i<length (df_index T). df_values M ! i ! i = df_values T ! i ! k)"
proof -
  let ?n = "length (df_index T)"
  let ?M = "\<lparr>df_index = df_index T, df_columns = df_index T,
             df_values = map (\<lambda>r. map (\<lambda>s. PInt (the (the_int (r ! k)) AND the (the_int (s ! k))))
                                 (df_values T)) (df_values T)\<rparr>"
  have len: "length (df_values T) = ?n"
    using assms(1) by (simp add: rectangular_def)
  have M: "gene_df_of T gene = Inr ?M"
    using assms by (rule gene_df_of_cells)
  have sym: "df_values ?M ! i ! j = df_values ?M ! j ! i" if "i < ?n" and "j < ?n" for i j
    using that len by (simp add: and.commute)
  have diag: "df_values ?M ! i ! i = df_values T ! i ! k" if "i < ?n" for i
  proof -
    have "df_values ?M ! i ! i = PInt (the (the_int (df_values T ! i ! k)))"
      using that len by simp
    also have "\<dots> = df_values T ! i ! k"
      using int_cell_at [OF assms(1,2,4) that] by simp
    finally show ?thesis .
  qed
  show ?thesis
    using M sym diag by (intro exI [of _ ?M]) simp
qed

theorem co_presence_symmetric_diagonal_witness:
  "rectangular table_example \<and> int_cells table_example \<and>
   distinct (df_columns table_example) \<and> 0 < length (df_columns table_example) \<and>
   df_columns table_example ! 0 = PStr ''g'' \<and>
   (\<exists>M. gene_df_of table_example ''g'' = Inr M \<and>
      (\<forall>i<length (df_index table_example). \<forall>j<length (df_index table_example).
         df_values M ! i ! j = df_values M ! j ! i) \<and>
      (\<forall>i<length (df_index table_example).
         df_values M ! i ! i = df_values table_example ! i ! 0))"
proof -
  have h1: "rectangular table_example"
    by (simp add: table_example_def rectangular_def)
  have h2: "int_cells table_example"
    by (simp add: table_example_def int_cells_def)
  have h3: "distinct (df_columns table_example)"
    by (simp add: table_example_def)
  have h4: "0 < length (df_columns table_example)"
    by (simp add: table_example_def)
  have h5: "df_columns table_example ! 0 = PStr ''g''"
    by (simp add: table_example_def)
  show ?thesis
    using h1 h2 h3 h4 h5 co_presence_symmetric_diagonal [OF h1 h2 h3 h4 h5] by blast
qed

text \<open>The example of the specification: bits 1, 0, 1 for the rows A, B, C.\<close>

lemma gene_df_of_example:
  "gene_df_of table_example ''g'' =
     Inr \<lparr>df_index = [PStr ''A'', PStr ''B'', PStr ''C''],
           df_columns = [PStr ''A'', PStr ''B'', PStr ''C''],
           df_values = [[PInt 1, PInt 0, PInt 1], [PInt 0, PInt 0, PInt 0],
                        [PInt 1, PInt 0, PInt 1]]\<rparr>"
  by (simp add: table_example_def gene_df_of_def getitem_column_def positions_def
      outer_and_def)

subsection \<open>The selection by the tree order\<close>

lemma set_positions: "set (positions ls k) = {i. i < length ls \<and> ls ! i = k}"
  by (auto simp: positions_def)

lemma positions_nonempty: "k \<in> set ls \<Longrightarrow> positions ls k \<noteq> []"
proof -
  assume "k \<in> set ls"
  then obtain i where "i < length ls" and "ls ! i = k"
    by (auto simp: in_set_conv_nth)
  then have "i \<in> set (positions ls k)"
    by (simp add: set_positions)
  then show ?thesis by auto
qed

lemma positions_not_mem: "k \<notin> set ls \<Longrightarrow> positions ls k = []"
  by (auto simp: positions_def filter_empty_conv)

lemma label_position_nth:
  "distinct ls \<Longrightarrow> i < length ls \<Longrightarrow> label_position ls (ls ! i) = i"
  unfolding label_position_def
proof (induction ls arbitrary: i)
  case Nil
  then show ?case by simp
next
  case (Cons x xs)
  show ?case
  proof (cases i)
    case 0
    then show ?thesis by simp
  next
    case (Suc m)
    with Cons.prems have "xs ! m \<in> set xs" and "x \<notin> set xs" and "m < length xs"
      by auto
    then have "x \<noteq> xs ! m" by auto
    with Cons Suc show ?thesis by simp
  qed
qed

lemma positions_label_position:
  assumes "distinct ls" and "k \<in> set ls"
  shows "positions ls k = [label_position ls k]"
    and "label_position ls k < length ls" and "ls ! label_position ls k = k"
proof -
  from assms(2) obtain i where i: "i < length ls" "ls ! i = k"
    by (auto simp: in_set_conv_nth)
  have p: "label_position ls k = i"
    using label_position_nth [OF assms(1) i(1)] i(2) by simp
  show "positions ls k = [label_position ls k]"
    using positions_distinct [OF assms(1) i(1)] i(2) p by simp
  show "label_position ls k < length ls" using p i by simp
  show "ls ! label_position ls k = k" using p i by simp
qed

lemma get_indexer_distinct:
  assumes "distinct ls" and "set keys \<subseteq> set ls"
  shows "get_indexer ls keys = Inr (map (label_position ls) keys)"
proof -
  have "concat (map (positions ls) keys) = map (label_position ls) keys"
    using assms(2)
  proof (induction keys)
    case Nil
    then show ?case by simp
  next
    case (Cons k ks)
    then show ?case
      using positions_label_position(1) [OF assms(1), of k] by simp
  qed
  then show ?thesis
    using assms(2) by (auto simp: get_indexer_def list_all_iff)
qed

lemma set_valid_genomes:
  "set (valid_genomes M tips) = {g \<in> set tips. PStr g \<in> set (df_index M)}"
  by (auto simp: valid_genomes_def)

text \<open>
  C2: for a co-presence matrix (column labels equal to the row labels, the row
  labels pairwise distinct, as the GenomeIDs of the data model are) and any list
  of leaf names, \<open>valid_genomes\<close> is the subsequence of the leaf names that
  occur in the index, in tree order; the reordered matrix has these names as
  its row and as its column labels, its cell \<open>(a, b)\<close> is the cell of the matrix
  in the row of name \<open>a\<close> and the column of name \<open>b\<close>, and a name that is
  only in the tree or only in the index is not among its labels.
\<close>

theorem reorder_selects_valid_genomes:
  assumes "df_columns M = df_index M" and "distinct (df_index M)"
  shows "valid_genomes M tips = filter (\<lambda>g. PStr g \<in> set (df_index M)) tips \<and>
         subseq (valid_genomes M tips) tips \<and>
         (\<exists>R. reorder_by_tips M tips = Inr R \<and>
            df_index R = map PStr (valid_genomes M tips) \<and>
            df_columns R = map PStr (valid_genomes M tips) \<and>
            set (df_index R) = PStr ` set tips \<inter> set (df_index M) \<and>
            rectangular R \<and>
            (\<forall>a<length (valid_genomes M tips). \<forall>b<length (valid_genomes M tips).
               df_values R ! a ! b =
                 df_values M ! label_position (df_index M) (PStr (valid_genomes M tips ! a))
                             ! label_position (df_index M) (PStr (valid_genomes M tips ! b))))"
proof -
  let ?v = "valid_genomes M tips"
  let ?keys = "map PStr ?v"
  let ?pos = "label_position (df_index M)"
  let ?R = "\<lparr>df_index = map (\<lambda>i. df_index M ! i) (map ?pos ?keys),
             df_columns = map (\<lambda>j. df_columns M ! j) (map ?pos ?keys),
             df_values = map (\<lambda>i. map (\<lambda>j. df_values M ! i ! j) (map ?pos ?keys))
                           (map ?pos ?keys)\<rparr>"
  have sub: "set ?keys \<subseteq> set (df_index M)"
    by (auto simp: valid_genomes_def)
  have ix: "get_indexer (df_index M) ?keys = Inr (map ?pos ?keys)"
    using assms(2) sub by (rule get_indexer_distinct)
  have R: "reorder_by_tips M tips = Inr ?R"
    by (simp add: reorder_by_tips_def loc_def assms(1) ix Let_def)
  have lbl: "df_index M ! ?pos k = k" if "k \<in> set ?keys" for k
    using positions_label_position(3) [OF assms(2)] that sub by blast
  have idx: "df_index ?R = ?keys"
    using lbl by (simp add: map_idI)
  have cols: "df_columns ?R = ?keys"
    using lbl by (simp add: assms(1) map_idI)
  have sets: "set (df_index ?R) = PStr ` set tips \<inter> set (df_index M)"
    unfolding idx by (auto simp: valid_genomes_def)
  have rect: "rectangular ?R"
    by (simp add: rectangular_def list_all_iff)
  have cells: "df_values ?R ! a ! b =
      df_values M ! ?pos (PStr (?v ! a)) ! ?pos (PStr (?v ! b))"
    if "a < length ?v" and "b < length ?v" for a b
    using that by simp
  have "subseq ?v tips"
    by (simp add: valid_genomes_def)
  moreover have "?v = filter (\<lambda>g. PStr g \<in> set (df_index M)) tips"
    by (simp add: valid_genomes_def)
  ultimately show ?thesis
    using R idx cols sets rect cells by (intro conjI exI [of _ ?R]) blast+
qed

theorem reorder_selects_valid_genomes_witness:
  "df_columns matrix_example = df_index matrix_example \<and>
   distinct (df_index matrix_example) \<and>
   valid_genomes matrix_example [''B'', ''D'', ''A''] = [''B'', ''A''] \<and>
   (\<exists>R. reorder_by_tips matrix_example [''B'', ''D'', ''A''] = Inr R \<and>
      df_index R = [PStr ''B'', PStr ''A''] \<and> df_columns R = [PStr ''B'', PStr ''A''])"
proof -
  have h1: "df_columns matrix_example = df_index matrix_example"
    by (simp add: matrix_example_def)
  have h2: "distinct (df_index matrix_example)"
    by (simp add: matrix_example_def)
  have v: "valid_genomes matrix_example [''B'', ''D'', ''A''] = [''B'', ''A'']"
    by (simp add: matrix_example_def valid_genomes_def)
  show ?thesis
    using h1 h2 v reorder_selects_valid_genomes [OF h1 h2, of "[''B'', ''D'', ''A'']"]
    by auto
qed

lemma reorder_by_tips_disjoint:
  assumes "\<forall>g\<in>set tips. PStr g \<notin> set (df_index M)"
  shows "reorder_by_tips M tips = Inr empty_frame"
proof -
  have "valid_genomes M tips = []"
    using assms by (simp add: valid_genomes_def filter_empty_conv)
  then show ?thesis
    by (simp add: reorder_by_tips_def loc_def get_indexer_def empty_frame_def)
qed

lemma reorder_by_tips_populated:
  assumes "valid_genomes M tips \<noteq> []" and "reorder_by_tips M tips = Inr R"
  shows "df_index R \<noteq> []"
proof -
  from assms(1) obtain g where g: "g \<in> set (valid_genomes M tips)"
    by (cases "valid_genomes M tips") auto
  then have "PStr g \<in> set (df_index M)"
    by (simp add: set_valid_genomes)
  then have "positions (df_index M) (PStr g) \<noteq> []"
    by (rule positions_nonempty)
  then have ne: "concat (map (positions (df_index M)) (map PStr (valid_genomes M tips))) \<noteq> []"
    using g by auto
  from assms(2) show ?thesis
    using ne
    by (auto simp: reorder_by_tips_def loc_def get_indexer_def Let_def
        split: sum.splits if_splits)
qed

text \<open>
  C9: when the tree is read and no leaf name is in the index of the matrix, the
  reconciler raises nothing and returns the frame without rows and columns; no
  result with a valid genome is that frame; and the loop over the genes writes
  the empty frame for the gene and goes on with the next gene.
\<close>

theorem reorder_empty_intersection:
  assumes "fs tree_file = Some newick_text" and "phylo_read newick_text = Inr tree"
    and "tip_labels_ordered tree = Inr tips"
    and "\<forall>g\<in>set tips. PStr g \<notin> set (df_index M)"
  shows "reorder_matrix_by_tree phylo_read fs M tree_file = Inr empty_frame \<and>
         (\<forall>M' tips' R. valid_genomes M' tips' \<noteq> [] \<longrightarrow>
            reorder_by_tips M' tips' = Inr R \<longrightarrow> R \<noteq> empty_frame) \<and>
         (\<forall>df gene genes written. gene_df_of df gene = Inr M \<longrightarrow>
            gene_loop phylo_read fs df output_folder tree_file (gene # genes) written =
              gene_loop phylo_read fs df output_folder tree_file genes
                (written @ [(path_join output_folder
                     (gene @ ''_comparison_matrix_ordered_by_tree.csv''), empty_frame)]))"
proof -
  have r: "reorder_matrix_by_tree phylo_read fs M tree_file = Inr empty_frame"
    using assms(1-3) reorder_by_tips_disjoint [OF assms(4)]
    by (simp add: reorder_matrix_by_tree_def)
  have d: "R \<noteq> empty_frame"
    if "valid_genomes M' tips' \<noteq> []" and "reorder_by_tips M' tips' = Inr R" for M' tips' R
    using reorder_by_tips_populated [OF that] by (auto simp: empty_frame_def)
  have l: "gene_loop phylo_read fs df output_folder tree_file (gene # genes) written =
      gene_loop phylo_read fs df output_folder tree_file genes
        (written @ [(path_join output_folder
             (gene @ ''_comparison_matrix_ordered_by_tree.csv''), empty_frame)])"
    if "gene_df_of df gene = Inr M" for df gene genes written
    using that r by (simp add: gene_step_def)
  show ?thesis
    using r d l by blast
qed

theorem reorder_empty_intersection_witness:
  "files_example ''t.nwk'' = Some ''(X,Y);'' \<and>
   reader_example ''(X,Y);'' = Inr tree_example \<and>
   tip_labels_ordered tree_example = Inr [''X'', ''Y''] \<and>
   PStr ''X'' \<notin> set (df_index matrix_example) \<and>
   PStr ''Y'' \<notin> set (df_index matrix_example) \<and>
   reorder_matrix_by_tree reader_example files_example matrix_example ''t.nwk'' =
     Inr empty_frame"
proof -
  have h1: "files_example ''t.nwk'' = Some ''(X,Y);''"
    by (simp add: files_example_def)
  have h2: "reader_example ''(X,Y);'' = Inr tree_example"
    by (simp add: reader_example_def)
  have h3: "tip_labels_ordered tree_example = Inr [''X'', ''Y'']"
    by (simp add: tip_labels_ordered_def tree_example_def strip_quote_def)
  have h4: "\<forall>g\<in>set [''X'', ''Y'']. PStr g \<notin> set (df_index matrix_example)"
    by (simp add: matrix_example_def)
  have h5: "PStr ''X'' \<notin> set (df_index matrix_example)"
    and h6: "PStr ''Y'' \<notin> set (df_index matrix_example)"
    by (simp_all add: matrix_example_def)
  show ?thesis
    using h1 h2 h3 h5 h6
      reorder_empty_intersection [of files_example "''t.nwk''" "''(X,Y);''" reader_example
        tree_example "[''X'', ''Y'']" matrix_example, OF h1 h2 h3 h4]
    by blast
qed

subsection \<open>Reordering twice\<close>

lemma upt_split_shift:
  "[0..<n + m] = [0..<n] @ map (\<lambda>i. i + n) [0..<m]"
proof -
  have "map (\<lambda>i. i + n) [0..<m] = [n..<m + n]"
    by (rule map_add_upt)
  moreover have "[0..<n + m] = [0..<n] @ [n..<n + m]"
    by (rule upt_add_eq_append) simp
  ultimately show ?thesis
    by (simp only: add.commute [of m n])
qed

lemma positions_append:
  "positions (xs @ ys) k = positions xs k @ map (\<lambda>i. i + length xs) (positions ys k)"
proof -
  have l: "filter (\<lambda>i. (xs @ ys) ! i = k) [0..<length xs] = filter (\<lambda>i. xs ! i = k) [0..<length xs]"
    by (rule filter_cong) (auto simp: nth_append)
  have r: "filter (\<lambda>i. (xs @ ys) ! i = k) (map (\<lambda>i. i + length xs) [0..<length ys]) =
      map (\<lambda>i. i + length xs) (filter (\<lambda>i. ys ! i = k) [0..<length ys])"
    by (simp add: filter_map comp_def nth_append del: upt_Suc)
  have "positions (xs @ ys) k =
      filter (\<lambda>i. (xs @ ys) ! i = k) ([0..<length xs] @ map (\<lambda>i. i + length xs) [0..<length ys])"
    unfolding positions_def length_append upt_split_shift [symmetric] ..
  also have "\<dots> = positions xs k @ map (\<lambda>i. i + length xs) (positions ys k)"
    unfolding filter_append l r positions_def ..
  finally show ?thesis .
qed

lemma positions_replicate: "positions (replicate c k) k = [0..<c]"
  by (simp add: positions_def filter_id_conv)

lemma map_nth_positions:
  "map (\<lambda>i. ls ! i) (positions ls k) = replicate (length (positions ls k)) k"
proof -
  have "map f xs = replicate (length xs) c" if "\<forall>x\<in>set xs. f x = c"
    for f :: "nat \<Rightarrow> pyval" and xs c
    using that by (induction xs) auto
  then show ?thesis
    by (simp add: set_positions)
qed

lemma set_blocks: "set (blocks c keys) \<subseteq> set keys"
  by (auto simp: blocks_def)

lemma set_blocks_pos: "(\<And>k. k \<in> set keys \<Longrightarrow> 0 < c k) \<Longrightarrow> set (blocks c keys) = set keys"
  by (auto simp: blocks_def)

lemma selected_labels:
  "map (\<lambda>i. ls ! i) (concat (map (positions ls) keys)) =
     blocks (\<lambda>k. length (positions ls k)) keys"
  by (induction keys) (simp_all add: blocks_def map_nth_positions)

lemma positions_blocks:
  "distinct keys \<Longrightarrow>
     concat (map (positions (blocks c keys)) keys) = [0..<length (blocks c keys)]"
proof (induction keys)
  case Nil
  then show ?case by (simp add: blocks_def)
next
  case (Cons k ks)
  let ?L = "blocks c ks"
  have L: "blocks c (k # ks) = replicate (c k) k @ ?L"
    by (simp add: blocks_def)
  have "k \<notin> set ?L"
    using Cons.prems set_blocks [of c ks] by auto
  then have hd: "positions (blocks c (k # ks)) k = [0..<c k]"
    by (simp add: L positions_append positions_replicate positions_not_mem)
  have tl: "positions (blocks c (k # ks)) k' = map (\<lambda>i. i + c k) (positions ?L k')"
    if "k' \<in> set ks" for k'
  proof -
    have "k' \<noteq> k" using that Cons.prems by auto
    then have "positions (replicate (c k) k) k' = []"
      by (intro positions_not_mem) auto
    then show ?thesis by (simp add: L positions_append)
  qed
  have "concat (map (positions (blocks c (k # ks))) ks) =
      concat (map (\<lambda>k'. map (\<lambda>i. i + c k) (positions ?L k')) ks)"
    using tl by (intro arg_cong [where f = concat] map_cong) auto
  also have "\<dots> = map (\<lambda>i. i + c k) (concat (map (positions ?L) ks))"
    by (simp add: map_concat comp_def)
  also have "\<dots> = map (\<lambda>i. i + c k) [0..<length ?L]"
    using Cons by simp
  also have "\<dots> = [c k..<c k + length ?L]"
    by (simp add: map_add_upt add.commute)
  finally have rest: "concat (map (positions (blocks c (k # ks))) ks) = [c k..<c k + length ?L]" .
  show ?case
    using hd rest by (simp add: L upt_add_eq_append [symmetric] del: upt_Suc)
qed

lemma map_nth_rows:
  assumes "length vs = n" and "\<And>row. row \<in> set vs \<Longrightarrow> length row = m"
  shows "map (\<lambda>i. map (\<lambda>j. vs ! i ! j) [0..<m]) [0..<n] = vs"
proof (rule nth_equalityI)
  show "length (map (\<lambda>i. map (\<lambda>j. vs ! i ! j) [0..<m]) [0..<n]) = length vs"
    using assms(1) by simp
next
  fix i assume "i < length (map (\<lambda>i. map (\<lambda>j. vs ! i ! j) [0..<m]) [0..<n])"
  then have i: "i < n" by simp
  then have "length (vs ! i) = m"
    using assms by auto
  then have "map (\<lambda>j. vs ! i ! j) [0..<m] = vs ! i"
    using map_nth [of "vs ! i"] by simp
  then show "map (\<lambda>i. map (\<lambda>j. vs ! i ! j) [0..<m]) [0..<n] ! i = vs ! i"
    using i by simp
qed

lemma loc_blocks:
  assumes keys: "distinct keys"
    and rows: "set keys \<subseteq> set (df_index M)" and cols: "set keys \<subseteq> set (df_columns M)"
    and R: "loc M keys keys = Inr R"
  shows "set (df_index R) = set keys" and "loc R keys keys = Inr R"
proof -
  let ?is = "concat (map (positions (df_index M)) keys)"
  let ?js = "concat (map (positions (df_columns M)) keys)"
  let ?ci = "\<lambda>k. length (positions (df_index M) k)"
  let ?cj = "\<lambda>k. length (positions (df_columns M) k)"
  have gi: "get_indexer (df_index M) keys = Inr ?is"
    and gj: "get_indexer (df_columns M) keys = Inr ?js"
    using rows cols by (auto simp: get_indexer_def list_all_iff)
  have Ri: "df_index R = blocks ?ci keys" and Rc: "df_columns R = blocks ?cj keys"
    and Rv: "df_values R = map (\<lambda>i. map (\<lambda>j. df_values M ! i ! j) ?js) ?is"
    using R by (auto simp: loc_def gi gj selected_labels)
  have si: "set (blocks ?ci keys) = set keys"
    using rows positions_nonempty by (intro set_blocks_pos) auto
  have sj: "set (blocks ?cj keys) = set keys"
    using cols positions_nonempty by (intro set_blocks_pos) auto
  show "set (df_index R) = set keys"
    by (simp add: Ri si)
  have li: "length (blocks ?ci keys) = length ?is"
    using selected_labels [of "df_index M" keys, symmetric] by (metis length_map)
  have lj: "length (blocks ?cj keys) = length ?js"
    using selected_labels [of "df_columns M" keys, symmetric] by (metis length_map)
  have gi': "get_indexer (df_index R) keys = Inr [0..<length ?is]"
    using positions_blocks [OF keys, of ?ci] si
    by (simp add: get_indexer_def list_all_iff Ri li)
  have gj': "get_indexer (df_columns R) keys = Inr [0..<length ?js]"
    using positions_blocks [OF keys, of ?cj] sj
    by (simp add: get_indexer_def list_all_iff Rc lj)
  have vals: "map (\<lambda>i. map (\<lambda>j. df_values R ! i ! j) [0..<length ?js]) [0..<length ?is] =
      df_values R"
    by (rule map_nth_rows) (auto simp: Rv)
  have "loc R keys keys =
      Inr \<lparr>df_index = map (\<lambda>i. df_index R ! i) [0..<length ?is],
            df_columns = map (\<lambda>j. df_columns R ! j) [0..<length ?js],
            df_values = df_values R\<rparr>"
    by (simp add: loc_def gi' gj' vals)
  also have "map (\<lambda>i. df_index R ! i) [0..<length ?is] = df_index R"
    using map_nth [of "df_index R"] by (simp add: Ri li)
  also have "map (\<lambda>j. df_columns R ! j) [0..<length ?js] = df_columns R"
    using map_nth [of "df_columns R"] by (simp add: Rc lj)
  finally show "loc R keys keys = Inr R" by simp
qed

lemma loc_Inr_keys:
  "loc M rows cols = Inr R \<Longrightarrow> set rows \<subseteq> set (df_index M) \<and> set cols \<subseteq> set (df_columns M)"
  by (auto simp: loc_def get_indexer_def list_all_iff split: sum.splits if_splits)

lemma reorder_twice:
  assumes "distinct (valid_genomes M tips)" and "reorder_by_tips M tips = Inr R"
  shows "reorder_by_tips R tips = Inr R"
proof -
  let ?keys = "map PStr (valid_genomes M tips)"
  have R: "loc M ?keys ?keys = Inr R"
    using assms(2) by (simp add: reorder_by_tips_def Let_def)
  have d: "distinct ?keys"
    using assms(1) by (simp add: distinct_map inj_on_def)
  have sub: "set ?keys \<subseteq> set (df_index M)" "set ?keys \<subseteq> set (df_columns M)"
    using loc_Inr_keys [OF R] by auto
  have s: "set (df_index R) = set ?keys" and again: "loc R ?keys ?keys = Inr R"
    using loc_blocks [OF d sub R] by auto
  have "valid_genomes R tips = filter (\<lambda>g. g \<in> set (valid_genomes M tips)) tips"
    by (auto simp: valid_genomes_def s intro: filter_cong)
  also have "\<dots> = valid_genomes M tips"
    by (auto simp: valid_genomes_def intro: filter_cong)
  finally have "valid_genomes R tips = valid_genomes M tips" .
  then show ?thesis
    using again by (simp add: reorder_by_tips_def Let_def)
qed

lemma reorder_square_succeeds:
  assumes "df_columns M = df_index M"
  shows "\<exists>R. reorder_by_tips M tips = Inr R"
  by (auto simp: reorder_by_tips_def loc_def get_indexer_def list_all_iff assms
      valid_genomes_def Let_def)

text \<open>
  C8, amended: for a square matrix (column labels equal to the row labels) and a
  tree order whose leaf names in the index are pairwise distinct, the
  reconciliation succeeds, and reconciling its result by the same tree order
  gives the same frame again: same index, same columns, same cells.
\<close>

theorem reorder_idempotent_distinct_leaves:
  assumes "df_columns M = df_index M" and "distinct (valid_genomes M tips)"
  shows "\<exists>R. reorder_by_tips M tips = Inr R \<and> reorder_by_tips R tips = Inr R"
  using reorder_square_succeeds [OF assms(1)] reorder_twice [OF assms(2)] by blast

theorem reorder_idempotent_distinct_leaves_witness:
  "df_columns matrix_example = df_index matrix_example \<and>
   distinct (valid_genomes matrix_example [''B'', ''D'', ''A'']) \<and>
   (\<exists>R. reorder_by_tips matrix_example [''B'', ''D'', ''A''] = Inr R \<and>
      reorder_by_tips R [''B'', ''D'', ''A''] = Inr R)"
proof -
  have h1: "df_columns matrix_example = df_index matrix_example"
    by (simp add: matrix_example_def)
  have h2: "distinct (valid_genomes matrix_example [''B'', ''D'', ''A''])"
    by (simp add: matrix_example_def valid_genomes_def)
  show ?thesis
    using h1 h2 reorder_idempotent_distinct_leaves [OF h1 h2] by blast
qed

text \<open>
  A tree order that names a leaf twice: the first pass selects the row twice,
  the second pass selects each of the two rows twice, and the frame grows from
  two rows to four.
\<close>

theorem reorder_twice_counterexample:
  "reorder_by_tips single_example [''A'', ''A''] = Inr doubled_example \<and>
   reorder_by_tips doubled_example [''A'', ''A''] =
     Inr \<lparr>df_index = [PStr ''A'', PStr ''A'', PStr ''A'', PStr ''A''],
           df_columns = [PStr ''A'', PStr ''A'', PStr ''A'', PStr ''A''],
           df_values = [[PInt 1, PInt 1, PInt 1, PInt 1], [PInt 1, PInt 1, PInt 1, PInt 1],
                        [PInt 1, PInt 1, PInt 1, PInt 1], [PInt 1, PInt 1, PInt 1, PInt 1]]\<rparr> \<and>
   reorder_by_tips doubled_example [''A'', ''A''] \<noteq> Inr doubled_example"
  by (simp add: reorder_by_tips_def valid_genomes_def loc_def get_indexer_def positions_def
      single_example_def doubled_example_def upt_rec Let_def)

subsection \<open>Flattening by base name\<close>











subsection \<open>The batch: duplicate GenomeIDs and a tree that cannot be parsed\<close>


text \<open>
  A tree file that is not in tree notation, with two genes: the presence table
  is written, the exception of the first gene's ordering step ends the
  function, and no matrix is written for the second gene.
\<close>

theorem tree_error_counterexample:
  "process_gff_folder batch_listdir getctime_example no_tree batch_files ''gff''
     [''mecA'', ''tetA''] ''hgt'' ''tree.txt'' ''HGT'' =
     ([(''hgt/HGT_gene_presence_matrix.csv'', batch_table)], Some NewickError)"
  by code_simp

text \<open>
  C5, amended: when the tree file is not valid tree notation, the failure of
  the first gene's ordering step is fatal for the whole batch of the category:
  the function ends with that exception (or with the one of the step before
  it, when the gene has no column), the presence table written before stays,
  and no ordered matrix is written for any gene.
\<close>

theorem tree_error_ends_batch:
  assumes "presence_table listdir getctime fs folder_path (gene # genes) = Inr df"
    and "fs tree_file = Some newick_text" and "phylo_read newick_text = Inl err"
  shows "\<exists>e. process_gff_folder listdir getctime phylo_read fs folder_path (gene # genes)
                output_folder tree_file label =
              ([(path_join output_folder (label @ ''_gene_presence_matrix.csv''), df)], Some e) \<and>
             (e = err \<or> gene_df_of df gene = Inl e)"
  using assms
  by (auto simp: process_gff_folder_def gene_step_def reorder_matrix_by_tree_def
      split: sum.splits)

theorem tree_error_ends_batch_witness:
  "presence_table batch_listdir getctime_example batch_files ''gff'' (''mecA'' # [''tetA'']) =
     Inr batch_table \<and>
   batch_files ''tree.txt'' = Some ''(strainA'' \<and> no_tree ''(strainA'' = Inl NewickError \<and>
   (\<exists>e. process_gff_folder batch_listdir getctime_example no_tree batch_files ''gff''
           (''mecA'' # [''tetA'']) ''hgt'' ''tree.txt'' ''HGT'' =
         ([(path_join ''hgt'' (''HGT'' @ ''_gene_presence_matrix.csv''), batch_table)], Some e))"
proof -
  have h1: "presence_table batch_listdir getctime_example batch_files ''gff''
      (''mecA'' # [''tetA'']) = Inr batch_table"
    by code_simp
  have h2: "batch_files ''tree.txt'' = Some ''(strainA''"
    by (simp add: batch_files_def)
  have h3: "no_tree ''(strainA'' = Inl NewickError"
    by (simp add: no_tree_def)
  show ?thesis
    using h1 h2 h3
      tree_error_ends_batch [of batch_listdir getctime_example batch_files "''gff''" "''mecA''"
        "[''tetA'']" batch_table "''tree.txt''" "''(strainA''" no_tree NewickError
        "''hgt''" "''HGT''"]
    by blast
qed














subsection \<open>The Name attribute of a record\<close>

text \<open>
  Two records of nine fields. In the first the first \<open>Name=\<close> has an empty
  value and a second one follows: the value in the words of the specification
  is empty, and the parser sets the bit of the gene of the second. In the
  second the value ends in a space: it is not the name of the gene, and the
  parser, which strips the line first, sets the bit.
\<close>

theorem name_attribute_counterexample:
  "length (split_on TAB (record_with ''Name=;Name=mecA'')) = 9 \<and>
   \<not> startswith (record_with ''Name=;Name=mecA'') ''#'' \<and>
   spec_name_value (split_on TAB (record_with ''Name=;Name=mecA'') ! 8) = Some [] \<and>
   presence_bit [''mecA''] (record_with ''Name=;Name=mecA'') ''mecA'' = Some 1 \<and>
   length (split_on TAB (record_with ''Name=mecA '')) = 9 \<and>
   \<not> startswith (record_with ''Name=mecA '') ''#'' \<and>
   spec_name_value (split_on TAB (record_with ''Name=mecA '') ! 8) = Some ''mecA '' \<and>
   presence_bit [''mecA''] (record_with ''Name=mecA '') ''mecA'' = Some 1"
  by code_simp

lemma startswith_iff: "startswith s p \<longleftrightarrow> (\<exists>q. s = p @ q)"
proof
  assume "startswith s p"
  then have "s = p @ drop (length p) s"
    by (metis append_take_drop_id startswith_def)
  then show "\<exists>q. s = p @ q" ..
next
  assume "\<exists>q. s = p @ q"
  then show "startswith s p" by (auto simp: startswith_def)
qed

lemma name_run_empty: "name_run q = [] \<longleftrightarrow> q = [] \<or> hd q = CHR '';''"
  by (cases q) (auto simp: name_run_def)

lemma name_run_eq:
  "name_run q = v \<longleftrightarrow>
     (\<exists>rest. q = v @ rest \<and> CHR '';'' \<notin> set v \<and> (rest = [] \<or> hd rest = CHR '';''))"
proof
  assume v: "name_run q = v"
  let ?P = "\<lambda>c. c \<noteq> CHR '';''"
  have "q = v @ dropWhile ?P q"
    using v takeWhile_dropWhile_id [of ?P q] by (simp add: name_run_def)
  moreover have "CHR '';'' \<notin> set v"
    using v set_takeWhileD [of "CHR '';''" ?P q] by (auto simp: name_run_def)
  moreover have "dropWhile ?P q = [] \<or> hd (dropWhile ?P q) = CHR '';''"
    using hd_dropWhile [of ?P q] by auto
  ultimately show "\<exists>rest. q = v @ rest \<and> CHR '';'' \<notin> set v \<and> (rest = [] \<or> hd rest = CHR '';'')"
    by blast
next
  assume "\<exists>rest. q = v @ rest \<and> CHR '';'' \<notin> set v \<and> (rest = [] \<or> hd rest = CHR '';'')"
  then obtain rest where q: "q = v @ rest" and v: "CHR '';'' \<notin> set v"
    and r: "rest = [] \<or> hd rest = CHR '';''"
    by blast
  have "takeWhile (\<lambda>c. c \<noteq> CHR '';'') rest = []"
    using r by (cases rest) auto
  moreover have "takeWhile (\<lambda>c. c \<noteq> CHR '';'') (v @ rest) = v @ takeWhile (\<lambda>c. c \<noteq> CHR '';'') rest"
    using v by (intro takeWhile_append2) auto
  ultimately show "name_run q = v"
    by (simp add: name_run_def q)
qed

lemma re_search_name_match:
  assumes "key = ''Name=''" and "c # cs = key @ q" and "name_run q \<noteq> []"
  shows "re_search_name (c # cs) = Some (name_run q)"
proof -
  have "startswith (c # cs) ''Name=''"
    unfolding startswith_iff using assms(1,2) by blast
  moreover have "drop 4 cs = q"
    using assms(1,2) by simp
  ultimately show ?thesis
    using assms(3) by simp
qed

lemma re_search_name_skip:
  assumes "key = ''Name=''" and "\<And>q. c # cs = key @ q \<Longrightarrow> name_run q = []"
  shows "re_search_name (c # cs) = re_search_name cs"
proof (cases "startswith (c # cs) ''Name=''")
  case True
  then obtain q where q: "c # cs = key @ q"
    unfolding startswith_iff assms(1) by blast
  then have "drop 4 cs = q"
    using assms(1) by simp
  with assms(2) [OF q] True show ?thesis by simp
next
  case False
  then show ?thesis by simp
qed

lemma re_search_name_sound:
  assumes key: "key = ''Name=''"
  shows "re_search_name s = Some v \<Longrightarrow>
     \<exists>pre rest. s = pre @ key @ v @ rest \<and> v \<noteq> [] \<and> CHR '';'' \<notin> set v \<and>
        (rest = [] \<or> hd rest = CHR '';'') \<and>
        (\<forall>p q. s = p @ key @ q \<and> length p < length pre \<longrightarrow> q = [] \<or> hd q = CHR '';'')"
proof (induction s)
  case Nil
  then show ?case by simp
next
  case (Cons c cs)
  show ?case
  proof (cases "\<exists>q. c # cs = key @ q \<and> name_run q \<noteq> []")
    case True
    then obtain q where q: "c # cs = key @ q" "name_run q \<noteq> []"
      by blast
    have vq: "v = name_run q"
      using Cons.prems re_search_name_match [OF key q] by simp
    then obtain rest where r: "q = v @ rest" "CHR '';'' \<notin> set v"
      "rest = [] \<or> hd rest = CHR '';''"
      using name_run_eq [of q v] by auto
    have "c # cs = [] @ key @ v @ rest"
      using q(1) r(1) by simp
    moreover have "v \<noteq> []"
      using q(2) vq by simp
    ultimately show ?thesis
      using r(2,3) by (intro exI [of _ "[]"] exI [of _ rest]) simp
  next
    case False
    then have "re_search_name (c # cs) = re_search_name cs"
      by (intro re_search_name_skip [OF key]) blast
    then have "re_search_name cs = Some v"
      using Cons.prems by simp
    then obtain pre rest where cs: "cs = pre @ key @ v @ rest" and v: "v \<noteq> []"
      "CHR '';'' \<notin> set v" "rest = [] \<or> hd rest = CHR '';''"
      and least: "\<And>p q. cs = p @ key @ q \<Longrightarrow> length p < length pre \<Longrightarrow>
          q = [] \<or> hd q = CHR '';''"
      using Cons.IH by blast
    have "q = [] \<or> hd q = CHR '';''"
      if "c # cs = p @ key @ q" and "length p < length (c # pre)" for p q
    proof (cases p)
      case Nil
      with that(1) False have "name_run q = []" by auto
      then show ?thesis by (simp add: name_run_empty)
    next
      case (Cons c' p')
      with that have "cs = p' @ key @ q" and "length p' < length pre" by auto
      then show ?thesis by (rule least)
    qed
    then have "\<forall>p q. c # cs = p @ key @ q \<and> length p < length (c # pre) \<longrightarrow>
        q = [] \<or> hd q = CHR '';''"
      by blast
    moreover have "c # cs = (c # pre) @ key @ v @ rest"
      using cs by simp
    ultimately show ?thesis
      using v by blast
  qed
qed

lemma re_search_name_complete:
  assumes key: "key = ''Name=''"
    and "s = pre @ key @ v @ rest" and "v \<noteq> []" and "CHR '';'' \<notin> set v"
    and "rest = [] \<or> hd rest = CHR '';''"
    and "\<And>p q. s = p @ key @ q \<Longrightarrow> length p < length pre \<Longrightarrow> q = [] \<or> hd q = CHR '';''"
  shows "re_search_name s = Some v"
  using assms(2,6)
proof (induction pre arbitrary: s)
  case Nil
  have run: "name_run (v @ rest) = v"
    using name_run_eq [of "v @ rest" v] assms(4,5) by auto
  have "s \<noteq> []" using Nil(1) assms(3) by simp
  then obtain c cs where s: "s = c # cs" by (cases s) auto
  have "c # cs = key @ (v @ rest)"
    using Nil(1) s by simp
  moreover have "name_run (v @ rest) \<noteq> []"
    using run assms(3) by simp
  ultimately have "re_search_name (c # cs) = Some (name_run (v @ rest))"
    by (rule re_search_name_match [OF key])
  then show ?case
    using s run by simp
next
  case (Cons c pre)
  obtain cs where s: "s = c # cs" and cs: "cs = pre @ key @ v @ rest"
    using Cons.prems(1) by auto
  have no: "re_search_name (c # cs) = re_search_name cs"
  proof (rule re_search_name_skip [OF key])
    fix q assume q: "c # cs = key @ q"
    have "q = [] \<or> hd q = CHR '';''"
      using Cons.prems(2) [of "[]" q] q s by simp
    then show "name_run q = []" by (simp add: name_run_empty)
  qed
  have "re_search_name cs = Some v"
  proof (rule Cons.IH [OF cs])
    fix p q assume "cs = p @ key @ q" and "length p < length pre"
    then show "q = [] \<or> hd q = CHR '';''"
      using Cons.prems(2) [of "c # p" q] s by simp
  qed
  then show ?case
    using s no by simp
qed

lemma re_search_name_iff: "re_search_name s = Some v \<longleftrightarrow> first_name_value s v"
proof
  assume "re_search_name s = Some v"
  from re_search_name_sound [OF refl this] show "first_name_value s v"
    unfolding first_name_value_def .
next
  assume "first_name_value s v"
  then obtain pre rest where "s = pre @ ''Name='' @ v @ rest" "v \<noteq> []" "CHR '';'' \<notin> set v"
    "rest = [] \<or> hd rest = CHR '';''"
    "\<And>p q. s = p @ ''Name='' @ q \<Longrightarrow> length p < length pre \<Longrightarrow> q = [] \<or> hd q = CHR '';''"
    unfolding first_name_value_def by blast
  then show "re_search_name s = Some v"
    by (rule re_search_name_complete [OF refl])
qed

lemma map_of_foldl_init:
  fixes d0 :: presence
  shows "map_of (foldl (\<lambda>d gene. AList.update gene 0 d) d0 gs) g =
     (if g \<in> set gs then Some 0 else map_of d0 g)"
proof (induction gs arbitrary: d0)
  case Nil
  then show ?case by simp
next
  case (Cons x gs)
  show ?case
    using Cons [of "AList.update x 0 d0"] by (simp add: update_conv')
qed

lemma map_of_init_presence: "g \<in> set target_genes \<Longrightarrow> map_of (init_presence target_genes) g = Some 0"
  using map_of_foldl_init [of "[]" target_genes g] by (simp add: init_presence_def)

text \<open>
  C6, amended: for a line that is not a comment and whose text, stripped of
  leading and trailing white space, has at least nine tab-separated fields,
  the bit of a gene of the GeneSet is set to 1 exactly when the name of the
  gene is the value of the first \<open>Name=\<close> of the ninth field that is followed
  by a character other than a semicolon, the value being the text up to the
  next semicolon or the end of the field; otherwise the bit stays 0. The
  comparison is equality of strings.
\<close>

theorem parse_line_sets_bit:
  assumes "gene \<in> set target_genes" and "\<not> startswith line ''#''"
    and "length (split_on TAB (strip line)) > 8"
  shows "(presence_bit target_genes line gene = Some 1 \<longleftrightarrow>
            first_name_value (split_on TAB (strip line) ! 8) gene) \<and>
         (presence_bit target_genes line gene = Some 0 \<longleftrightarrow>
            \<not> first_name_value (split_on TAB (strip line) ! 8) gene)"
proof -
  let ?attributes = "split_on TAB (strip line) ! 8"
  let ?init = "init_presence target_genes"
  have zero: "map_of ?init gene = Some 0"
    using assms(1) by (rule map_of_init_presence)
  have line: "parse_line target_genes ?init line =
      (case re_search_name ?attributes of
         Some gene_name \<Rightarrow>
           if gene_name \<in> set target_genes then AList.update gene_name 1 ?init else ?init
       | None \<Rightarrow> ?init)"
    using assms(2,3) by (simp add: parse_line_def TAB_def Let_def)
  show ?thesis
  proof (cases "re_search_name ?attributes")
    case None
    then have "\<not> first_name_value ?attributes gene"
      by (simp add: re_search_name_iff [symmetric])
    then show ?thesis
      using None zero by (simp add: presence_bit_def line)
  next
    case (Some n)
    show ?thesis
    proof (cases "n = gene")
      case True
      then have "first_name_value ?attributes gene"
        using Some by (simp add: re_search_name_iff [symmetric])
      then show ?thesis
        using Some True assms(1) by (simp add: presence_bit_def line update_conv')
    next
      case False
      then have "\<not> first_name_value ?attributes gene"
        using Some by (simp add: re_search_name_iff [symmetric])
      then show ?thesis
        using Some False zero by (simp add: presence_bit_def line update_conv')
    qed
  qed
qed

theorem parse_line_sets_bit_witness:
  "presence_bit [''mecA'', ''tetA''] (record_with ''ID=g1;Name=mecA'' @ [LF]) ''mecA'' = Some 1 \<and>
   presence_bit [''mecA'', ''tetA''] (record_with ''ID=g1;Name=mecA'' @ [LF]) ''tetA'' = Some 0"
proof -
  let ?line = "record_with ''ID=g1;Name=mecA'' @ [LF]"
  have h1: "''mecA'' \<in> set [''mecA'', ''tetA'']" and h1': "''tetA'' \<in> set [''mecA'', ''tetA'']"
    by simp_all
  have h2: "\<not> startswith ?line ''#''"
    by code_simp
  have h3: "length (split_on TAB (strip ?line)) > 8"
    by code_simp
  have "re_search_name (split_on TAB (strip ?line) ! 8) = Some ''mecA''"
    by code_simp
  then have v: "first_name_value (split_on TAB (strip ?line) ! 8) ''mecA''"
    and w: "\<not> first_name_value (split_on TAB (strip ?line) ! 8) ''tetA''"
    by (simp_all add: re_search_name_iff [symmetric])
  show ?thesis
    using parse_line_sets_bit [OF h1 h2 h3] parse_line_sets_bit [OF h1' h2 h3] v w by blast
qed

end
